theory Spec2Isabelle
  imports Complex_Main "HOL-Library.Word" "HOL-Library.Log_Nat"
begin

unbundle bit_operations_syntax

section \<open>PreciseTime: the clock state\<close>

text \<open>
  The class \<open>PreciseTime\<close> (include/PreciseTime.h) keeps its state in static
  variables and chooses one of three implementations with the preprocessor:
  \<open>#if defined(ESP32)\<close>, \<open>#elif defined(ESP8266)\<close>, \<open>#else\<close>. The choice is the
  parameter \<open>backend\<close> of every operation below. The record \<open>clock\<close> holds the
  static variables of all three builds; an operation of one build reads and
  writes the variables of that build only, as the source does.

  The platform functions \<open>micros()\<close> and \<open>millis()\<close> return the narrow 32-bit
  counter. Every operation calls at most one of them, at most once, so the value
  it returns is the parameter \<open>now\<close> of the operation. The calls that configure
  the hardware timers are recorded, in order, in \<open>hw_log\<close>.
\<close>

type_synonym u32 = "32 word"
type_synonym u64 = "64 word"

datatype backend = ESP32 | ESP8266 | Generic

datatype hw_call =
    TimerBegin nat nat bool
  | TimerAttachInterrupt bool
  | TimerAlarmWrite nat bool
  | TimerAlarmEnable
  | Timer1IsrInit
  | Timer1AttachInterrupt
  | Timer1Enable

record clock =
  initialized :: bool
  timer :: "nat option"
  time_fct_micros :: u64
  overflow_counter :: u32
  last_micros :: u32
  total_micros :: u64
  last_millis :: u32
  total_millis :: u64
  hw_log :: "hw_call list"

text \<open>The static variable definitions: the state at process start.\<close>

definition initial_clock :: clock where
  "initial_clock =
     \<lparr>initialized = False, timer = None, time_fct_micros = 0,
      overflow_counter = 0, last_micros = 0, total_micros = 0,
      last_millis = 0, total_millis = 0, hw_log = []\<rparr>"

section \<open>Interrupt handlers\<close>

definition timerISR :: "clock \<Rightarrow> clock" where
  "timerISR s = s\<lparr>time_fct_micros := time_fct_micros s + 1\<rparr>"

definition microsOverflowISR :: "clock \<Rightarrow> clock" where
  "microsOverflowISR s = s\<lparr>overflow_counter := overflow_counter s + 1\<rparr>"

section \<open>Widening the narrow counter\<close>

text \<open>\<open>updateTime\<close> (ESP8266): \<open>now\<close> is the value of \<open>micros()\<close>.\<close>

definition updateTime :: "u32 \<Rightarrow> clock \<Rightarrow> clock" where
  "updateTime now s =
     (if \<not> initialized s then s
      else
        let current_micros = now;
            high_part = overflow_counter s;
            high_part = (if current_micros < last_micros s then high_part + 1 else high_part)
        in s\<lparr>total_micros := push_bit 32 (ucast high_part :: u64) OR ucast current_micros,
             last_micros := current_micros\<rparr>)"

text \<open>\<open>updateSoftwareTimer\<close> (other boards): \<open>now\<close> is the value of \<open>millis()\<close>;
  \<open>UINT32_MAX\<close> is \<open>0xFFFFFFFF\<close> and the arithmetic on \<open>delta\<close> is 32-bit.\<close>

definition UINT32_MAX :: u32 where
  "UINT32_MAX = 0xFFFFFFFF"

definition updateSoftwareTimer :: "u32 \<Rightarrow> clock \<Rightarrow> clock" where
  "updateSoftwareTimer now s =
     (if \<not> initialized s then s
      else
        let current = now;
            delta = (if current \<ge> last_millis s then current - last_millis s
                     else (UINT32_MAX - last_millis s) + current + 1)
        in s\<lparr>total_millis := total_millis s + ucast delta,
             last_millis := current\<rparr>)"

section \<open>Public operations\<close>

definition begin_clock :: "backend \<Rightarrow> u32 \<Rightarrow> clock \<Rightarrow> clock" where
  "begin_clock b now s =
     (if initialized s then s
      else
        (case b of
           ESP32 \<Rightarrow>
             s\<lparr>timer := Some 0,
               hw_log := hw_log s @
                 [TimerBegin 0 80 True, TimerAttachInterrupt True,
                  TimerAlarmWrite 1 True, TimerAlarmEnable]\<rparr>
         | ESP8266 \<Rightarrow>
             s\<lparr>last_micros := now, total_micros := 0, overflow_counter := 0,
               hw_log := hw_log s @ [Timer1IsrInit, Timer1AttachInterrupt, Timer1Enable]\<rparr>
         | Generic \<Rightarrow>
             s\<lparr>last_millis := now, total_millis := 0\<rparr>)
        \<lparr>initialized := True\<rparr>)"

text \<open>A read returns the value and the state it leaves behind.\<close>

definition getMicroseconds :: "backend \<Rightarrow> u32 \<Rightarrow> clock \<Rightarrow> u64 \<times> clock" where
  "getMicroseconds b now s =
     (case b of
        ESP32 \<Rightarrow> (if \<not> initialized s then (0, s) else (time_fct_micros s, s))
      | ESP8266 \<Rightarrow>
          (if \<not> initialized s then (0, s)
           else let s' = updateTime now s in (total_micros s', s'))
      | Generic \<Rightarrow>
          (if \<not> initialized s then (0, s)
           else let s' = updateSoftwareTimer now s in (total_millis s' * 1000, s')))"

definition getMilliseconds :: "backend \<Rightarrow> u32 \<Rightarrow> clock \<Rightarrow> u64 \<times> clock" where
  "getMilliseconds b now s =
     (let (t, s') = getMicroseconds b now s in (t div 1000, s'))"

definition getSeconds :: "backend \<Rightarrow> u32 \<Rightarrow> clock \<Rightarrow> u64 \<times> clock" where
  "getSeconds b now s =
     (let (t, s') = getMicroseconds b now s in (t div 1000000, s'))"

definition update :: "backend \<Rightarrow> u32 \<Rightarrow> clock \<Rightarrow> clock" where
  "update b now s =
     (case b of
        ESP8266 \<Rightarrow> updateTime now s
      | Generic \<Rightarrow> updateSoftwareTimer now s
      | ESP32 \<Rightarrow> s)"

definition isInitialized :: "clock \<Rightarrow> bool" where
  "isInitialized s = initialized s"

definition reset :: "backend \<Rightarrow> u32 \<Rightarrow> clock \<Rightarrow> clock" where
  "reset b now s =
     (case b of
        ESP32 \<Rightarrow> s\<lparr>time_fct_micros := 0\<rparr>
      | ESP8266 \<Rightarrow> s\<lparr>last_micros := now, total_micros := 0, overflow_counter := 0\<rparr>
      | Generic \<Rightarrow> s\<lparr>last_millis := now, total_millis := 0\<rparr>)"

section \<open>Seconds as a \<open>double\<close>\<close>

text \<open>
  \<open>getSecondsPrecise\<close> computes \<open>(double)getMicroseconds() / 1000000.0\<close>, where
  \<open>double\<close> is IEEE 754 binary64, as on ESP8266 and ESP32. A finite \<open>double\<close> is a
  rational number, so the result is a \<open>rat\<close>, and each of the two floating-point
  operations (the conversion of the 64-bit integer and the division) is the
  exact operation followed by \<open>round_double\<close>: rounding to the nearest number
  with a 53-bit significand, ties to the even significand, which is the default
  rounding mode. \<open>ilog2 x\<close> is the exponent \<open>e\<close> with \<open>2^e \<le> x < 2^(e+1)\<close>; below
  \<open>2^-1022\<close> the exponent stays at \<open>-1022\<close> (subnormal numbers). The format
  overflows at \<open>2^1024\<close>, far above the values that occur here, which are at most
  \<open>2^64\<close>. The constant \<open>1000000.0\<close> is a \<open>double\<close> as it stands.
\<close>

definition ilog2 :: "rat \<Rightarrow> int" where
  "ilog2 x =
     (let (a, b) = quotient_of x;
          d = int (floorlog 2 (nat a)) - int (floorlog 2 (nat b))
      in if 2 powi d \<le> x then d else d - 1)"

definition round_half_even :: "rat \<Rightarrow> int" where
  "round_half_even x =
     (let f = \<lfloor>x\<rfloor>; r = x - of_int f
      in if r < 1 / 2 then f
         else if 1 / 2 < r then f + 1
         else if even f then f else f + 1)"

definition round_double :: "rat \<Rightarrow> rat" where
  "round_double x =
     (if x = 0 then 0
      else let e = max (ilog2 x) (- 1022); ulp = 2 powi (e - 52)
           in of_int (round_half_even (x / ulp)) * ulp)"

definition getSecondsPrecise :: "backend \<Rightarrow> u32 \<Rightarrow> clock \<Rightarrow> rat \<times> clock" where
  "getSecondsPrecise b now s =
     (let (t, s') = getMicroseconds b now s
      in (round_double (round_double (of_nat (unat t)) / 1000000), s'))"

section \<open>Formatting\<close>

text \<open>
  \<open>getFormattedTime\<close> writes its four reference parameters; here it returns them
  as a tuple. \<open>days\<close> is 64-bit; \<open>hours\<close>, \<open>minutes\<close> and \<open>seconds\<close> are 32-bit and
  receive a 64-bit value, which the assignment narrows.
\<close>

definition getFormattedTime ::
  "backend \<Rightarrow> u32 \<Rightarrow> clock \<Rightarrow> (u64 \<times> u32 \<times> u32 \<times> u32) \<times> clock" where
  "getFormattedTime b now s =
     (let (total_seconds, s') = getSeconds b now s;
          days = total_seconds div 86400;
          remaining = total_seconds mod 86400;
          hours = (ucast (remaining div 3600) :: u32);
          remaining = remaining mod 3600;
          minutes = (ucast (remaining div 60) :: u32);
          seconds = (ucast (remaining mod 60) :: u32)
      in ((days, hours, minutes, seconds), s'))"

text \<open>\<open>snprintf\<close>: \<open>%llu\<close> and \<open>%lu\<close> print an unsigned value in decimal, \<open>%02lu\<close>
  pads it with zeros to two characters, and a buffer of 64 bytes keeps at most
  63 characters.\<close>

fun dec :: "nat \<Rightarrow> string" where
  "dec n = (if n < 10 then [''0123456789'' ! n]
            else dec (n div 10) @ [''0123456789'' ! (n mod 10)])"

declare dec.simps [simp del]

definition pad2 :: "string \<Rightarrow> string" where
  "pad2 xs = replicate (2 - length xs) CHR ''0'' @ xs"

definition getFormattedString :: "backend \<Rightarrow> u32 \<Rightarrow> clock \<Rightarrow> string \<times> clock" where
  "getFormattedString b now s =
     (let ((days, hours, minutes, seconds), s') = getFormattedTime b now s
      in (take 63
            (if days > 0
             then dec (unat days) @ '' jours, '' @ pad2 (dec (unat hours)) @ '':''
                    @ pad2 (dec (unat minutes)) @ '':'' @ pad2 (dec (unat seconds))
             else pad2 (dec (unat hours)) @ '':''
                    @ pad2 (dec (unat minutes)) @ '':'' @ pad2 (dec (unat seconds))),
          s'))"

section \<open>Sequences of operations\<close>

text \<open>
  A history of the clock is a list of operations, each with the value the narrow
  counter has when the operation samples it. \<open>Interrupt\<close> is one run of the
  interrupt handler of the build (\<open>timerISR\<close> on ESP32, \<open>microsOverflowISR\<close> on
  ESP8266; the third build has none). \<open>run\<close> returns the values of the reads, in
  order, and the final state.
\<close>

datatype op = Begin u32 | Read u32 | Update u32 | Reset u32 | Interrupt

definition interrupt :: "backend \<Rightarrow> clock \<Rightarrow> clock" where
  "interrupt b s =
     (case b of ESP32 \<Rightarrow> timerISR s | ESP8266 \<Rightarrow> microsOverflowISR s | Generic \<Rightarrow> s)"

fun step :: "backend \<Rightarrow> op \<Rightarrow> clock \<Rightarrow> u64 option \<times> clock" where
  "step b (Begin now) s = (None, begin_clock b now s)"
| "step b (Read now) s = (let (t, s') = getMicroseconds b now s in (Some t, s'))"
| "step b (Update now) s = (None, update b now s)"
| "step b (Reset now) s = (None, reset b now s)"
| "step b Interrupt s = (None, interrupt b s)"

fun run :: "backend \<Rightarrow> op list \<Rightarrow> clock \<Rightarrow> u64 list \<times> clock" where
  "run b [] s = ([], s)"
| "run b (x # xs) s =
     (let (r, s') = step b x s;
          (rs, s'') = run b xs s'
      in ((case r of None \<Rightarrow> rs | Some t \<Rightarrow> t # rs), s''))"

fun is_begin :: "op \<Rightarrow> bool" where
  "is_begin (Begin now) = True"
| "is_begin x = False"

fun is_read_or_update :: "op \<Rightarrow> bool" where
  "is_read_or_update (Read now) = True"
| "is_read_or_update (Update now) = True"
| "is_read_or_update x = False"

section \<open>Properties\<close>

text \<open>
  C5. \<open>begin()\<close> is idempotent: on a clock that is already initialized it
  returns at once and changes no field, whatever the backend and whatever the
  narrow counter reads.
\<close>

theorem begin_idempotent:
  "initialized s \<Longrightarrow> begin_clock b now s = s"
  by (simp add: begin_clock_def)

theorem begin_idempotent_witness:
  "initialized (begin_clock ESP8266 7 initial_clock) \<and>
   begin_clock ESP8266 99 (begin_clock ESP8266 7 initial_clock)
     = begin_clock ESP8266 7 initial_clock"
proof -
  have h: "initialized (begin_clock ESP8266 7 initial_clock)"
    by (simp add: begin_clock_def initial_clock_def)
  show ?thesis using h begin_idempotent [OF h, of ESP8266 99] by simp
qed

subsection \<open>The polling build\<close>

lemma delta_word:
  fixes current last :: u32
  shows "(UINT32_MAX - last) + current + 1 = current - last"
  by (simp add: UINT32_MAX_def)

text \<open>The 32-bit \<open>delta\<close> of \<open>updateSoftwareTimer\<close>, read as a natural number: in the
  wrapped branch the sum does not overflow.\<close>

lemma delta_nat:
  fixes current last :: u32
  shows "unat (if current \<ge> last then current - last
               else (UINT32_MAX - last) + current + 1) =
         (if unat current \<ge> unat last then unat current - unat last
          else (4294967295 - unat last) + unat current + 1)"
proof (cases "current \<ge> last")
  case True
  then show ?thesis by (simp add: word_le_nat_alt unat_sub)
next
  case False
  have "unat last < 4294967296"
    using unsigned_less [of last, where ?'a = nat] by simp
  with False show ?thesis
    by (simp add: delta_word unat_sub_if_size word_le_nat_alt word_size)
qed

lemma ucast_delta:
  fixes d :: u32
  shows "(ucast d :: u64) = of_nat (unat d)"
  by simp

text \<open>
  C4. On the polling build, \<open>update()\<close> on an initialized clock adds to
  \<open>total_millis\<close> (modulo \<open>2^64\<close>) the number \<open>current - last_millis\<close> when
  \<open>current \<ge> last_millis\<close> and \<open>(UINT32_MAX - last_millis) + current + 1\<close>
  otherwise, sets \<open>last_millis\<close> to \<open>current\<close> and changes nothing else. For the
  samples \<open>0xFFFFFFF0\<close> then \<open>0x00000005\<close> the second call adds
  \<open>(0xFFFFFFFF - 0xFFFFFFF0) + 1 + 5 = 21\<close>.
\<close>

theorem polling_update_delta:
  assumes "initialized s"
  shows "update Generic now s =
           s\<lparr>total_millis := total_millis s +
                 of_nat (if unat (last_millis s) \<le> unat now
                         then unat now - unat (last_millis s)
                         else (4294967295 - unat (last_millis s)) + unat now + 1),
             last_millis := now\<rparr>
         \<and> total_millis (update Generic 0x00000005 (update Generic 0xFFFFFFF0 s))
             = total_millis (update Generic 0xFFFFFFF0 s) + 21"
proof -
  let ?d = "if now \<ge> last_millis s then now - last_millis s
            else (UINT32_MAX - last_millis s) + now + 1"
  have "update Generic now s =
          s\<lparr>total_millis := total_millis s + ucast ?d, last_millis := now\<rparr>"
    using assms by (simp add: update_def updateSoftwareTimer_def Let_def)
  moreover have "(ucast ?d :: u64) = of_nat (unat ?d)" by (rule ucast_delta)
  moreover note delta_nat [of "last_millis s" now]
  ultimately have first: "update Generic now s =
           s\<lparr>total_millis := total_millis s +
                 of_nat (if unat (last_millis s) \<le> unat now
                         then unat now - unat (last_millis s)
                         else (4294967295 - unat (last_millis s)) + unat now + 1),
             last_millis := now\<rparr>"
    by (simp only:)
  have second: "total_millis (update Generic 0x00000005 (update Generic 0xFFFFFFF0 s))
             = total_millis (update Generic 0xFFFFFFF0 s) + 21"
    using assms by (simp add: update_def updateSoftwareTimer_def Let_def UINT32_MAX_def)
  from first second show ?thesis by (rule conjI)
qed

theorem polling_update_delta_witness:
  "initialized (begin_clock Generic 0xFFFFFFF0 initial_clock) \<and>
   total_millis (update Generic 5 (begin_clock Generic 0xFFFFFFF0 initial_clock)) = 21 \<and>
   last_millis (update Generic 5 (begin_clock Generic 0xFFFFFFF0 initial_clock)) = 5"
proof -
  have h: "initialized (begin_clock Generic 0xFFFFFFF0 initial_clock)"
    by (simp add: begin_clock_def initial_clock_def)
  have t: "total_millis (begin_clock Generic 0xFFFFFFF0 initial_clock) = 0"
    and l: "last_millis (begin_clock Generic 0xFFFFFFF0 initial_clock) = 0xFFFFFFF0"
    by (simp_all add: begin_clock_def initial_clock_def)
  show ?thesis
    using h polling_update_delta [OF h, of 5] by (simp add: t l)
qed

text \<open>
  C8. On the polling build, a second \<open>update()\<close> that samples the same value of
  the narrow counter as the first adds a delta of zero: the state after the two
  calls is the state after the first, and so is \<open>total_millis\<close>. This holds
  whether or not the clock is initialized.
\<close>

theorem polling_update_twice:
  "update Generic now (update Generic now s) = update Generic now s \<and>
   total_millis (update Generic now (update Generic now s))
     = total_millis (update Generic now s)"
  by (simp add: update_def updateSoftwareTimer_def Let_def)

subsection \<open>Reset\<close>

text \<open>
  C9. On every build, \<open>reset()\<close> leaves \<open>initialized\<close> as it was, so
  \<open>isInitialized()\<close> answers the same before and after. It writes the counters of
  the build only: \<open>time_fct_micros\<close> on ESP32; \<open>last_micros\<close>, \<open>total_micros\<close> and
  \<open>overflow_counter\<close> on ESP8266; \<open>last_millis\<close> and \<open>total_millis\<close> otherwise.
\<close>

theorem reset_keeps_initialized:
  "isInitialized (reset b now s) = isInitialized s \<and>
   reset b now s =
     (case b of
        ESP32 \<Rightarrow> s\<lparr>time_fct_micros := 0\<rparr>
      | ESP8266 \<Rightarrow> s\<lparr>last_micros := now, total_micros := 0, overflow_counter := 0\<rparr>
      | Generic \<Rightarrow> s\<lparr>last_millis := now, total_millis := 0\<rparr>) \<and>
   timer (reset b now s) = timer s \<and> hw_log (reset b now s) = hw_log s"
  by (cases b) (simp_all add: reset_def isInitialized_def)

subsection \<open>Unit conversions\<close>

text \<open>The exponent computed by \<open>ilog2\<close> is the binary exponent of its argument.\<close>

lemma floorlog2_rat:
  assumes "0 < (a::int)"
  shows "(2::rat) powi (int (floorlog 2 (nat a)) - 1) \<le> of_int a"
    and "(of_int a :: rat) < 2 powi (int (floorlog 2 (nat a)))"
proof -
  let ?l = "floorlog 2 (nat a)"
  from assms have pos: "0 < nat a" by simp
  from floorlog_bounds [OF pos, of 2]
  have lo: "2 ^ (?l - 1) \<le> nat a" and hi: "nat a < 2 ^ ?l" by simp_all
  have l1: "1 \<le> ?l" using pos by (simp add: floorlog_def)
  have "(2::rat) powi (int ?l - 1) = 2 ^ (?l - 1)"
    using l1 by (simp add: power_int_def nat_diff_distrib) 
  also have "\<dots> = of_nat (2 ^ (?l - 1))" by simp
  also have "\<dots> \<le> of_nat (nat a)" using lo by (simp only: of_nat_le_iff)
  also have "\<dots> = of_int a" using assms by simp
  finally show "(2::rat) powi (int ?l - 1) \<le> of_int a" .
  have "(of_int a :: rat) = of_nat (nat a)" using assms by simp
  also have "\<dots> < of_nat (2 ^ ?l)" using hi by (simp only: of_nat_less_iff)
  also have "\<dots> = 2 powi (int ?l)" by simp
  finally show "(of_int a :: rat) < 2 powi (int ?l)" .
qed

lemma ilog2_bounds:
  assumes "0 < x"
  shows "2 powi (ilog2 x) \<le> x \<and> x < 2 powi (ilog2 x + 1)"
proof -
  obtain a b where q: "quotient_of x = (a, b)" by (cases "quotient_of x")
  have b: "0 < b" using quotient_of_denom_pos [OF q] .
  have x: "x = of_int a / of_int b" using quotient_of_div [OF q] .
  have a: "0 < a" using assms b by (simp add: x zero_less_divide_iff)
  let ?la = "int (floorlog 2 (nat a))" and ?lb = "int (floorlog 2 (nat b))"
  let ?d = "?la - ?lb"
  note A = floorlog2_rat [OF a] and B = floorlog2_rat [OF b]
  have bpos: "(0::rat) < of_int b" using b by simp
  have apos: "(0::rat) < of_int a" using a by simp
  have up: "x < 2 powi (?d + 1)"
  proof -
    have "x * of_int b = (of_int a :: rat)" using bpos by (simp add: x)
    also have "\<dots> < 2 powi ?la" by (rule A(2))
    also have "\<dots> = 2 powi ((?d + 1) + (?lb - 1))" by simp
    also have "\<dots> = 2 powi (?d + 1) * 2 powi (?lb - 1)"
      by (rule power_int_add) simp
    also have "\<dots> \<le> 2 powi (?d + 1) * of_int b"
      by (rule mult_left_mono [OF B(1)]) simp
    finally show ?thesis using bpos by (simp only: mult_less_cancel_right_pos)
  qed
  have low: "2 powi (?d - 1) \<le> x"
  proof -
    have "(2::rat) powi (?d - 1) * of_int b \<le> 2 powi (?d - 1) * 2 powi ?lb"
      by (rule mult_left_mono [OF less_imp_le [OF B(2)]]) simp
    also have "\<dots> = 2 powi ((?d - 1) + ?lb)"
      by (rule power_int_add [symmetric]) simp
    also have "\<dots> = 2 powi (?la - 1)" by simp
    also have "\<dots> \<le> of_int a" by (rule A(1))
    also have "\<dots> = x * of_int b" using bpos by (simp add: x)
    finally show ?thesis using bpos by (simp only: mult_le_cancel_right_pos)
  qed
  show ?thesis
  proof (cases "2 powi ?d \<le> x")
    case True
    then have "ilog2 x = ?d" by (simp add: ilog2_def q)
    with True up show ?thesis by simp
  next
    case False
    then have "ilog2 x = ?d - 1" by (simp add: ilog2_def q)
    with False low show ?thesis by simp
  qed
qed

lemma round_half_even_half: "\<bar>of_int (round_half_even m) - m\<bar> \<le> 1 / 2"
proof -
  have "of_int \<lfloor>m\<rfloor> \<le> m" "m < of_int \<lfloor>m\<rfloor> + 1" by linarith+
  then show ?thesis
    by (auto simp: round_half_even_def Let_def)
qed

lemma round_half_even_tight:
  assumes "2 ^ 52 \<le> m"
  shows "\<bar>of_int (round_half_even m) - m\<bar> * (2 ^ 53 + 1) \<le> m"
proof (cases "2 ^ 52 + 1 / 2 \<le> m")
  case True
  have "\<bar>of_int (round_half_even m) - m\<bar> * (2 ^ 53 + 1) \<le> 1 / 2 * (2 ^ 53 + 1)"
    by (rule mult_right_mono [OF round_half_even_half]) simp
  also have "\<dots> = 2 ^ 52 + 1 / 2" by simp
  finally show ?thesis using True by linarith
next
  case False
  have fl: "\<lfloor>m\<rfloor> = 2 ^ 52"
    using assms False by (intro floor_unique) auto
  have "round_half_even m = 2 ^ 52"
    using False by (simp add: round_half_even_def Let_def fl)
  then show ?thesis using assms False by simp
qed

lemma ilog2_normal:
  assumes "2 powi (- 1022) \<le> x"
  shows "- 1022 \<le> ilog2 x"
proof (rule ccontr)
  assume "\<not> - 1022 \<le> ilog2 x"
  then have "ilog2 x + 1 \<le> - 1022" by simp
  then have "(2::rat) powi (ilog2 x + 1) \<le> 2 powi (- 1022)"
    by (rule power_int_increasing) simp
  also note assms
  finally have "2 powi (ilog2 x + 1) \<le> x" .
  moreover have "0 < x" by (rule less_le_trans [OF _ assms]) simp
  ultimately show False using ilog2_bounds [of x] by simp
qed

lemma round_double_error:
  assumes "2 powi (- 1022) \<le> x"
  shows "\<bar>round_double x - x\<bar> * (2 ^ 53 + 1) \<le> x"
proof -
  have pos: "0 < x" by (rule less_le_trans [OF _ assms]) simp
  define ulp :: rat where "ulp = 2 powi (ilog2 x - 52)"
  have ulp: "0 < ulp" by (simp add: ulp_def)
  have e: "max (ilog2 x) (- 1022) = ilog2 x"
    using ilog2_normal [OF assms] by simp
  have "2 powi (ilog2 x) \<le> x" using ilog2_bounds [OF pos] by simp
  moreover have "(2::rat) powi (ilog2 x) = 2 ^ 52 * ulp"
    unfolding ulp_def by (simp add: power_int_diff)
  ultimately have m: "2 ^ 52 \<le> x / ulp"
    using ulp by (simp add: pos_le_divide_eq)
  have rd: "round_double x = of_int (round_half_even (x / ulp)) * ulp"
    using pos by (simp add: round_double_def Let_def ulp_def e)
  have "\<bar>round_double x - x\<bar> = \<bar>of_int (round_half_even (x / ulp)) - x / ulp\<bar> * ulp"
  proof -
    have "round_double x - x = (of_int (round_half_even (x / ulp)) - x / ulp) * ulp"
      using ulp by (simp add: rd left_diff_distrib)
    then show ?thesis using ulp by (simp add: abs_mult)
  qed
  then have "\<bar>round_double x - x\<bar> * (2 ^ 53 + 1)
               = (\<bar>of_int (round_half_even (x / ulp)) - x / ulp\<bar> * (2 ^ 53 + 1)) * ulp"
    by simp
  also have "\<dots> \<le> (x / ulp) * ulp"
    by (rule mult_right_mono [OF round_half_even_tight [OF m]]) (use ulp in simp)
  also have "\<dots> = x" using ulp by simp
  finally show ?thesis .
qed

lemma round_double_0: "round_double 0 = 0"
  by (simp add: round_double_def)

lemma normal_small: "(2::rat) powi (- 1022) \<le> 1 / 2000000"
proof -
  have "(2::rat) powi (- 1022) \<le> 2 powi (- 21)"
    by (rule power_int_increasing) simp_all
  also have "\<dots> \<le> 1 / 2000000" by (simp add: power_int_minus_divide)
  finally show ?thesis .
qed

lemma double_quotient_error:
  assumes "1 \<le> x"
  shows "\<bar>round_double (round_double x / 1000000) - x / 1000000\<bar> * 2 ^ 52 \<le> x / 1000000"
proof -
  define d where "d = round_double x"
  define r where "r = round_double (d / 1000000)"
  have K: "(2::rat) ^ 53 + 1 = 9007199254740993" and L: "(2::rat) ^ 52 = 4503599627370496"
    by simp_all
  have nx: "2 powi (- 1022) \<le> x"
    using normal_small assms by linarith
  have e1: "\<bar>d - x\<bar> * (2 ^ 53 + 1) \<le> x"
    unfolding d_def by (rule round_double_error [OF nx])
  have dhalf: "1 / 2 \<le> d"
  proof -
    define a where "a = \<bar>d - x\<bar>"
    have "x - d \<le> a" by (simp add: a_def)
    moreover have "a * 9007199254740993 \<le> x" using e1 by (simp add: a_def)
    ultimately show ?thesis using assms by linarith
  qed
  have nq: "2 powi (- 1022) \<le> d / 1000000"
    using normal_small dhalf by linarith
  have e2: "\<bar>r - d / 1000000\<bar> * (2 ^ 53 + 1) \<le> d / 1000000"
    unfolding r_def by (rule round_double_error [OF nq])
  have tri: "\<bar>r - x / 1000000\<bar> \<le> \<bar>r - d / 1000000\<bar> + \<bar>d - x\<bar> / 1000000"
  proof -
    have "r - x / 1000000 = (r - d / 1000000) + (d - x) / 1000000"
      by (simp add: diff_divide_distrib)
    then have "\<bar>r - x / 1000000\<bar> \<le> \<bar>r - d / 1000000\<bar> + \<bar>(d - x) / 1000000\<bar>"
      by (simp only: abs_triangle_ineq)
    then show ?thesis by simp
  qed
  have dx: "d \<le> x + \<bar>d - x\<bar>" by simp
  define a1 where "a1 = \<bar>d - x\<bar>"
  define a2 where "a2 = \<bar>r - d / 1000000\<bar>"
  define g where "g = \<bar>r - x / 1000000\<bar>"
  from e1 e2 tri dx assms have "g * 2 ^ 52 \<le> x / 1000000"
    unfolding a1_def [symmetric] a2_def [symmetric] g_def [symmetric] K L
    by linarith
  then show ?thesis by (simp add: g_def r_def d_def)
qed

text \<open>
  C6. On the same state and the same sample of the narrow counter, with \<open>v\<close> the
  value \<open>getMicroseconds()\<close> returns: \<open>getMilliseconds()\<close> returns \<open>v div 1000\<close> and
  \<open>getSeconds()\<close> returns \<open>v div 1000000\<close> (division of natural numbers), and
  \<open>getSecondsPrecise()\<close> differs from the exact quotient \<open>v / 1000000\<close> by at most
  \<open>2^-52\<close> (the machine epsilon of \<open>double\<close>) times that quotient. All four leave
  the clock in the same state.
\<close>

theorem unit_conversions:
  "unat (fst (getMilliseconds b now s)) = unat (fst (getMicroseconds b now s)) div 1000 \<and>
   unat (fst (getSeconds b now s)) = unat (fst (getMicroseconds b now s)) div 1000000 \<and>
   \<bar>fst (getSecondsPrecise b now s) - of_nat (unat (fst (getMicroseconds b now s))) / 1000000\<bar>
     \<le> (of_nat (unat (fst (getMicroseconds b now s))) / 1000000) / 2 ^ 52 \<and>
   snd (getMilliseconds b now s) = snd (getMicroseconds b now s) \<and>
   snd (getSeconds b now s) = snd (getMicroseconds b now s) \<and>
   snd (getSecondsPrecise b now s) = snd (getMicroseconds b now s)"
proof -
  obtain v s' where g: "getMicroseconds b now s = (v, s')"
    by (cases "getMicroseconds b now s")
  have ms: "unat (v div 1000) = unat v div 1000"
    by (simp add: unat_div)
  have sec: "unat (v div 1000000) = unat v div 1000000"
    by (simp add: unat_div)
  have pr: "\<bar>round_double (round_double (of_nat (unat v)) / 1000000) - of_nat (unat v) / 1000000\<bar>
              \<le> (of_nat (unat v) / 1000000) / 2 ^ 52"
  proof (cases "unat v = 0")
    case True
    then show ?thesis by (simp add: round_double_0)
  next
    case False
    then have "1 \<le> unat v" by simp
    then have "(of_nat 1 :: rat) \<le> of_nat (unat v)" by (rule of_nat_mono)
    then have "(1::rat) \<le> of_nat (unat v)" by (simp only: of_nat_1)
    from double_quotient_error [OF this] show ?thesis
      by (simp add: pos_le_divide_eq)
  qed
  from ms sec pr show ?thesis
    by (simp add: getMilliseconds_def getSeconds_def getSecondsPrecise_def g)
qed

subsection \<open>Formatting\<close>

lemma dec_digit: "n < 10 \<Longrightarrow> dec n = [''0123456789'' ! n]"
  by (subst dec.simps) simp

lemma dec_length: "n < 10 ^ Suc k \<Longrightarrow> length (dec n) \<le> Suc k"
proof (induction k arbitrary: n)
  case 0
  then show ?case by (simp add: dec_digit)
next
  case (Suc k)
  show ?case
  proof (cases "n < 10")
    case True
    then show ?thesis by (simp add: dec_digit)
  next
    case False
    from Suc.prems have "n div 10 < 10 ^ Suc k" by simp
    from Suc.IH [OF this] False show ?thesis
      by (subst dec.simps) simp
  qed
qed

lemma dec_length_u64: "length (dec (unat (w :: u64))) \<le> 20"
proof -
  have "unat w < 2 ^ 64" using unsigned_less [of w, where ?'a = nat] by simp
  also have "(2::nat) ^ 64 \<le> 10 ^ Suc 19" by simp
  finally show ?thesis using dec_length [of "unat w" 19] by simp
qed

lemma pad2_length: "n < 100 \<Longrightarrow> length (pad2 (dec n)) = 2"
proof (cases "n < 10")
  case True
  then show ?thesis by (simp add: pad2_def dec_digit)
next
  case False
  assume "n < 100"
  with False have "n div 10 < 10" by simp
  with False show ?thesis
    by (subst dec.simps) (simp add: pad2_def dec_digit)
qed

lemma ucast_small:
  fixes w :: u64
  assumes "unat w < 4294967296"
  shows "unat (ucast w :: u32) = unat w"
  using assms by (simp add: unsigned_ucast_eq take_bit_nat_eq_self)

lemma getFormattedTime_nat:
  assumes "getFormattedTime b now s = ((days, hours, minutes, seconds), s')"
  defines "T \<equiv> unat (fst (getSeconds b now s))"
  shows "unat days = T div 86400" "unat hours = T mod 86400 div 3600"
    "unat minutes = T mod 86400 mod 3600 div 60" "unat seconds = T mod 86400 mod 3600 mod 60"
    "s' = snd (getSeconds b now s)"
proof -
  obtain t s1 where g: "getSeconds b now s = (t, s1)" by (cases "getSeconds b now s")
  from assms(1) have d: "days = t div 86400"
    and h: "hours = ucast (t mod 86400 div 3600)"
    and m: "minutes = ucast (t mod 86400 mod 3600 div 60)"
    and sc: "seconds = ucast (t mod 86400 mod 3600 mod 60)"
    and s: "s' = s1"
    by (simp_all add: getFormattedTime_def g Let_def)
  have T: "T = unat t" by (simp add: T_def g)
  show "unat days = T div 86400" by (simp add: d T unat_div)
  have "unat (t mod 86400 div 3600) = T mod 86400 div 3600"
    by (simp add: T unat_div unat_mod)
  moreover have "T mod 86400 div 3600 < 4294967296"
    by (rule less_trans [of _ 24]) simp_all
  ultimately show "unat hours = T mod 86400 div 3600"
    by (simp add: h ucast_small)
  have "unat (t mod 86400 mod 3600 div 60) = T mod 86400 mod 3600 div 60"
    by (simp add: T unat_div unat_mod)
  moreover have "T mod 86400 mod 3600 div 60 < 4294967296"
    by (rule less_trans [of _ 60]) simp_all
  ultimately show "unat minutes = T mod 86400 mod 3600 div 60"
    by (simp add: m ucast_small)
  have "unat (t mod 86400 mod 3600 mod 60) = T mod 86400 mod 3600 mod 60"
    by (simp add: T unat_mod)
  moreover have "T mod 86400 mod 3600 mod 60 < 4294967296"
    by (rule less_trans [of _ 60]) simp_all
  ultimately show "unat seconds = T mod 86400 mod 3600 mod 60"
    by (simp add: sc ucast_small)
  show "s' = snd (getSeconds b now s)" by (simp add: s g)
qed


lemma getFormattedString_eq:
  assumes "getFormattedTime b now s = ((days, hours, minutes, seconds), s')"
  shows "fst (getFormattedString b now s) =
           (if 0 < unat days then dec (unat days) @ '' jours, '' else []) @
           pad2 (dec (unat hours)) @ '':'' @ pad2 (dec (unat minutes)) @ '':'' @
           pad2 (dec (unat seconds))"
proof -
  note n = getFormattedTime_nat [OF assms]
  have h: "length (pad2 (dec (unat hours))) = 2"
    unfolding n(2) by (rule pad2_length) (rule less_trans [of _ 24], simp_all)
  have m: "length (pad2 (dec (unat minutes))) = 2"
    unfolding n(3) by (rule pad2_length) (rule less_trans [of _ 60], simp_all)
  have sc: "length (pad2 (dec (unat seconds))) = 2"
    unfolding n(4) by (rule pad2_length) (rule less_trans [of _ 60], simp_all)
  note d = dec_length_u64 [of days]
  have pos: "(0 < days) = (0 < unat days)" by (simp add: word_less_nat_alt)
  show ?thesis
    using d by (simp add: getFormattedString_def assms h m sc pos)
qed

text \<open>
  C7, as the code has it. \<open>getFormattedTime\<close> splits the seconds \<open>T\<close> that
  \<open>getSeconds()\<close> returns into \<open>T div 86400\<close> days, \<open>T mod 86400 div 3600\<close> hours,
  \<open>T mod 86400 mod 3600 div 60\<close> minutes and \<open>T mod 86400 mod 3600 mod 60\<close> seconds.
  \<open>getFormattedString\<close> prints \<open>HH:MM:SS\<close>, each field on two digits, after the
  prefix \<open><days> jours, \<close> exactly when \<open>days > 0\<close>; the buffer never truncates
  it. For \<open>T = 90061\<close> the fields are \<open>1, 1, 1, 1\<close> and the text is
  \<open>1 jours, 01:01:01\<close>.
\<close>

theorem formatted_time:
  "(let T = unat (fst (getSeconds b now s));
        ((days, hours, minutes, seconds), s') = getFormattedTime b now s
    in unat days = T div 86400 \<and>
       unat hours = T mod 86400 div 3600 \<and>
       unat minutes = T mod 86400 mod 3600 div 60 \<and>
       unat seconds = T mod 86400 mod 3600 mod 60 \<and>
       fst (getFormattedString b now s) =
         (if 0 < unat days then dec (unat days) @ '' jours, '' else []) @
         pad2 (dec (unat hours)) @ '':'' @ pad2 (dec (unat minutes)) @ '':'' @
         pad2 (dec (unat seconds))) \<and>
   (fst (getSeconds b now s) = 90061 \<longrightarrow>
      fst (getFormattedTime b now s) = (1, 1, 1, 1) \<and>
      fst (getFormattedString b now s) = ''1 jours, 01:01:01'')"
proof -
  obtain days hours minutes seconds s'
    where ft: "getFormattedTime b now s = ((days, hours, minutes, seconds), s')"
    by (cases "getFormattedTime b now s") auto
  note n = getFormattedTime_nat [OF ft]
  note str = getFormattedString_eq [OF ft]
  have general: "unat days = unat (fst (getSeconds b now s)) div 86400 \<and>
       unat hours = unat (fst (getSeconds b now s)) mod 86400 div 3600 \<and>
       unat minutes = unat (fst (getSeconds b now s)) mod 86400 mod 3600 div 60 \<and>
       unat seconds = unat (fst (getSeconds b now s)) mod 86400 mod 3600 mod 60 \<and>
       fst (getFormattedString b now s) =
         (if 0 < unat days then dec (unat days) @ '' jours, '' else []) @
         pad2 (dec (unat hours)) @ '':'' @ pad2 (dec (unat minutes)) @ '':'' @
         pad2 (dec (unat seconds))"
    using n(1-4) str by simp
  have concrete: "fst (getFormattedTime b now s) = (1, 1, 1, 1) \<and>
      fst (getFormattedString b now s) = ''1 jours, 01:01:01''"
    if t: "fst (getSeconds b now s) = 90061"
  proof -
    from n(1-4) have u: "unat days = 1" "unat hours = 1" "unat minutes = 1" "unat seconds = 1"
      by (simp_all add: t)
    then have w: "days = 1" "hours = 1" "minutes = 1" "seconds = 1"
      by (simp_all add: word_unat_eq_iff)
    from str show ?thesis
      by (simp add: ft u w dec_digit pad2_def)
  qed
  from general concrete show ?thesis by (simp add: ft Let_def)
qed

theorem formatted_time_witness:
  "fst (getSeconds Generic 90061000 (begin_clock Generic 0 initial_clock)) = 90061 \<and>
   fst (getFormattedTime Generic 90061000 (begin_clock Generic 0 initial_clock)) = (1, 1, 1, 1) \<and>
   fst (getFormattedString Generic 90061000 (begin_clock Generic 0 initial_clock))
     = ''1 jours, 01:01:01''"
proof -
  have h: "fst (getSeconds Generic 90061000 (begin_clock Generic 0 initial_clock)) = 90061"
    by (simp add: getSeconds_def getMicroseconds_def updateSoftwareTimer_def
        begin_clock_def initial_clock_def)
  from formatted_time [of Generic 90061000 "begin_clock Generic 0 initial_clock"] h
  show ?thesis by blast
qed

text \<open>
  C7, as the claim words it: the text for 90061 seconds would be
  \<open>1 days, 01:01:01\<close>. The format string of \<open>getFormattedString\<close> says \<open>jours\<close>.
\<close>

theorem formatted_string_days_counterexample:
  "fst (getSeconds Generic 90061000 (begin_clock Generic 0 initial_clock)) = 90061 \<and>
   fst (getFormattedString Generic 90061000 (begin_clock Generic 0 initial_clock))
     \<noteq> ''1 days, 01:01:01''"
  by (simp add: getFormattedString_def getFormattedTime_def getSeconds_def
      getMicroseconds_def updateSoftwareTimer_def begin_clock_def initial_clock_def
      dec_digit pad2_def)

subsection \<open>Before \<open>begin()\<close>\<close>

lemma getMicroseconds_uninit:
  "\<not> initialized s \<Longrightarrow> getMicroseconds b now s = (0, s)"
  by (cases b) (simp_all add: getMicroseconds_def)

lemma update_uninit:
  "\<not> initialized s \<Longrightarrow> update b now s = s"
  by (cases b) (simp_all add: update_def updateTime_def updateSoftwareTimer_def)

lemma reset_initialized: "initialized (reset b now s) = initialized s"
  by (cases b) (simp_all add: reset_def)

lemma interrupt_initialized: "initialized (interrupt b s) = initialized s"
  by (cases b) (simp_all add: interrupt_def timerISR_def microsOverflowISR_def)

lemma getters_uninit:
  assumes "\<not> initialized s"
  shows "getMilliseconds b now s = (0, s)" "getSeconds b now s = (0, s)"
    "getSecondsPrecise b now s = (0, s)"
    "snd (getFormattedTime b now s) = s" "snd (getFormattedString b now s) = s"
  using assms
  by (simp_all add: getMilliseconds_def getSeconds_def getSecondsPrecise_def
      getFormattedTime_def getFormattedString_def getMicroseconds_uninit round_double_0 Let_def)

lemma step_uninit:
  "\<not> initialized s \<Longrightarrow> \<not> is_begin x \<Longrightarrow>
     \<not> initialized (snd (step b x s)) \<and> (fst (step b x s) = None \<or> fst (step b x s) = Some 0)"
  by (cases x)
     (simp_all add: getMicroseconds_uninit update_uninit reset_initialized interrupt_initialized)

lemma run_uninit:
  "\<not> initialized s \<Longrightarrow> \<forall>x\<in>set ops. \<not> is_begin x \<Longrightarrow>
     \<not> initialized (snd (run b ops s)) \<and> (\<forall>t\<in>set (fst (run b ops s)). t = 0)"
proof (induction ops arbitrary: s)
  case Nil
  then show ?case by simp
next
  case (Cons x xs)
  obtain r s' where st: "step b x s = (r, s')" by (cases "step b x s")
  from Cons.prems step_uninit [of s x b] st
  have s': "\<not> initialized s'" and r: "r = None \<or> r = Some 0" by auto
  from Cons.IH [OF s'] Cons.prems
  have ih: "\<not> initialized (snd (run b xs s'))" "\<forall>t\<in>set (fst (run b xs s')). t = 0"
    by auto
  obtain rs s'' where rn: "run b xs s' = (rs, s'')" by (cases "run b xs s'")
  from ih rn r show ?case by (auto simp: st)
qed

lemma step_noop:
  "\<not> initialized s \<Longrightarrow> is_read_or_update x \<Longrightarrow>
     snd (step b x s) = s \<and> (fst (step b x s) = None \<or> fst (step b x s) = Some 0)"
  by (cases x) (simp_all add: getMicroseconds_uninit update_uninit)

lemma run_noop:
  "\<not> initialized s \<Longrightarrow> \<forall>x\<in>set ops. is_read_or_update x \<Longrightarrow>
     snd (run b ops s) = s \<and> (\<forall>t\<in>set (fst (run b ops s)). t = 0)"
proof (induction ops)
  case Nil
  then show ?case by simp
next
  case (Cons x xs)
  obtain r s' where st: "step b x s = (r, s')" by (cases "step b x s")
  from Cons.prems step_noop [of s x b] st
  have s': "s' = s" and r: "r = None \<or> r = Some 0" by auto
  from Cons.IH Cons.prems
  have ih: "snd (run b xs s) = s" "\<forall>t\<in>set (fst (run b xs s)). t = 0"
    by auto
  obtain rs s'' where rn: "run b xs s = (rs, s'')" by (cases "run b xs s")
  from ih rn r show ?case by (auto simp: st s')
qed

text \<open>
  C3. Before the first \<open>begin()\<close>: the clock starts with \<open>initialized = false\<close>, and
  after any history that contains no \<open>begin()\<close> (reads, updates, resets and
  interrupts, on any build) \<open>isInitialized()\<close> is still false, every read of the
  history returned 0, and \<open>getMicroseconds()\<close>, \<open>getMilliseconds()\<close>,
  \<open>getSeconds()\<close> and \<open>getSecondsPrecise()\<close> return 0.
\<close>

theorem reads_before_begin:
  assumes "\<forall>x\<in>set ops. \<not> is_begin x"
  shows "\<not> isInitialized initial_clock \<and>
         \<not> isInitialized (snd (run b ops initial_clock)) \<and>
         (\<forall>t\<in>set (fst (run b ops initial_clock)). t = 0) \<and>
         fst (getMicroseconds b now (snd (run b ops initial_clock))) = 0 \<and>
         fst (getMilliseconds b now (snd (run b ops initial_clock))) = 0 \<and>
         fst (getSeconds b now (snd (run b ops initial_clock))) = 0 \<and>
         fst (getSecondsPrecise b now (snd (run b ops initial_clock))) = 0"
proof -
  have i: "\<not> initialized initial_clock" by (simp add: initial_clock_def)
  from run_uninit [OF i assms, of b]
  have u: "\<not> initialized (snd (run b ops initial_clock))"
    and z: "\<forall>t\<in>set (fst (run b ops initial_clock)). t = 0" by simp_all
  from i u z show ?thesis
    by (simp add: isInitialized_def getMicroseconds_uninit getters_uninit)
qed

theorem reads_before_begin_witness:
  "list_all (\<lambda>x. \<not> is_begin x) [Read 5, Update 7, Reset 9, Interrupt, Read 11] \<and>
   \<not> isInitialized (snd (run ESP8266 [Read 5, Update 7, Reset 9, Interrupt, Read 11] initial_clock)) \<and>
   fst (getMicroseconds ESP8266 13
         (snd (run ESP8266 [Read 5, Update 7, Reset 9, Interrupt, Read 11] initial_clock))) = 0"
proof -
  have h: "\<forall>x\<in>set [Read 5, Update 7, Reset 9, Interrupt, Read 11]. \<not> is_begin x"
    by simp
  from reads_before_begin [OF h, of ESP8266 13] show ?thesis by simp
qed

text \<open>
  C10. On an uninitialized clock, on any build, \<open>update()\<close> and every read
  return the state they were given, field for field, and the reads return 0; so
  does any sequence of reads and updates.
\<close>

theorem uninitialized_noop:
  assumes "\<not> initialized s" and "\<forall>x\<in>set ops. is_read_or_update x"
  shows "snd (run b ops s) = s \<and> (\<forall>t\<in>set (fst (run b ops s)). t = 0) \<and>
         update b now s = s \<and>
         getMicroseconds b now s = (0, s) \<and>
         getMilliseconds b now s = (0, s) \<and>
         getSeconds b now s = (0, s) \<and>
         getSecondsPrecise b now s = (0, s) \<and>
         snd (getFormattedTime b now s) = s \<and>
         snd (getFormattedString b now s) = s"
  using run_noop [OF assms, of b] assms(1)
  by (simp add: update_uninit getMicroseconds_uninit getters_uninit)

theorem uninitialized_noop_witness:
  "\<not> initialized initial_clock \<and>
   list_all is_read_or_update [Read 5, Update 7, Read 11] \<and>
   snd (run Generic [Read 5, Update 7, Read 11] initial_clock) = initial_clock \<and>
   update Generic 3 initial_clock = initial_clock"
proof -
  have i: "\<not> initialized initial_clock" by (simp add: initial_clock_def)
  have h: "\<forall>x\<in>set [Read 5, Update 7, Read 11]. is_read_or_update x" by simp
  from uninitialized_noop [OF i h, of Generic 3] i show ?thesis by simp
qed

subsection \<open>The ESP8266 build\<close>

text \<open>The value \<open>updateTime\<close> reconstructs: \<open>high_part * 2^32 + micros()\<close>.\<close>

lemma wide_or_add:
  fixes h c :: u32
  shows "push_bit 32 (ucast h :: u64) OR ucast c = push_bit 32 (ucast h) + ucast c"
  by (rule disjunctive_add_eq_or [symmetric], rule bit_eqI)
     (auto simp: bit_simps dest: bit_imp_le_length)

lemma wide_value:
  fixes h c :: u32
  shows "unat (push_bit 32 (ucast h :: u64) OR ucast c) = unat h * 2 ^ 32 + unat c"
proof -
  have h: "unat h < 2 ^ 32" and c: "unat c < 2 ^ 32"
    using unsigned_less [of h, where ?'a = nat] unsigned_less [of c, where ?'a = nat]
    by simp_all
  have uh: "unat (ucast h :: u64) = unat h" and uc: "unat (ucast c :: u64) = unat c"
    using h c by (simp_all add: unsigned_ucast_eq take_bit_nat_eq_self)
  have p: "unat (push_bit 32 (ucast h :: u64)) = unat h * 2 ^ 32"
    using h by (simp add: push_bit_eq_mult unat_word_ariths uh)
  have "unat (push_bit 32 (ucast h :: u64)) + unat (ucast c :: u64) < 2 ^ LENGTH(64)"
    using h c by (simp add: p uc)
  then have "unat (push_bit 32 (ucast h :: u64) + ucast c) =
      unat (push_bit 32 (ucast h :: u64)) + unat (ucast c :: u64)"
    by (simp only: unat_add_lem)
  then show ?thesis by (simp only: wide_or_add p uc)
qed

lemma esp8266_read_value:
  assumes "initialized s"
  shows "unat (fst (getMicroseconds ESP8266 now s)) =
           unat (if now < last_micros s then overflow_counter s + 1 else overflow_counter s)
             * 2 ^ 32 + unat now"
    and "snd (getMicroseconds ESP8266 now s) =
           s\<lparr>total_micros := fst (getMicroseconds ESP8266 now s), last_micros := now\<rparr>"
  using assms by (simp_all add: getMicroseconds_def updateTime_def Let_def wide_value)

subsection \<open>Reading after \<open>reset()\<close>\<close>

lemmas run_defs = begin_clock_def getMicroseconds_def updateTime_def updateSoftwareTimer_def
  interrupt_def microsOverflowISR_def timerISR_def initial_clock_def reset_def update_def UINT32_MAX_def

text \<open>
  What the first read after \<open>reset()\<close> returns on an initialized clock, build by
  build: 0 on ESP32 when no tick came in between; on the polling build the
  milliseconds the narrow counter advanced since the reset, times 1000; on
  ESP8266 the narrow counter itself, plus \<open>2^32\<close> when it is below its value at
  the reset, not the time since the reset.
\<close>

lemma esp32_read_after_reset:
  "initialized s \<Longrightarrow> fst (getMicroseconds ESP32 now' (reset ESP32 now s)) = 0"
  by (simp add: getMicroseconds_def reset_def)

lemma generic_read_after_reset:
  "initialized s \<Longrightarrow>
     fst (getMicroseconds Generic now' (reset Generic now s)) = ucast (now' - now) * 1000"
  by (simp add: getMicroseconds_def reset_def updateSoftwareTimer_def Let_def delta_word)

lemma esp8266_read_after_reset_value:
  assumes "initialized s"
  shows "unat (fst (getMicroseconds ESP8266 now' (reset ESP8266 now s))) =
           (if now' < now then 2 ^ 32 else 0) + unat now'"
proof -
  have i: "initialized (reset ESP8266 now s)" using assms by (simp add: reset_def)
  show ?thesis
    unfolding esp8266_read_value(1) [OF i] by (simp add: reset_def)
qed

text \<open>
  C1 states that on every build the first read after \<open>reset()\<close> is near zero,
  below one period of the narrow counter (\<open>2^32 = 4294967296\<close> microseconds on
  ESP8266), and the documentation of \<open>reset()\<close> says that \<open>getMicroseconds()\<close> then
  returns 0 until time passes. The ESP8266 build does otherwise, since
  \<open>updateTime\<close> rebuilds \<open>total_micros\<close> from the raw value of \<open>micros()\<close>: after a
  reset at \<open>micros() = 0xFFFFFFF0\<close>, a read 21 microseconds later, at
  \<open>micros() = 5\<close>, returns \<open>2^32 + 5\<close>; after a reset at \<open>micros() = 50000000\<close>, a
  read at the same instant returns 50000000.
\<close>

theorem esp8266_read_after_reset:
  "fst (run ESP8266 [Begin 0, Reset 0xFFFFFFF0, Read 0x00000005] initial_clock) = [4294967301] \<and>
   \<not> (4294967301 :: u64) < 4294967296 \<and>
   fst (run ESP8266 [Begin 0, Reset 50000000, Read 50000000] initial_clock) = [50000000] \<and>
   \<not> (50000000 :: u64) < 1000"
  by (simp add: run_defs)

subsection \<open>Successive reads\<close>

text \<open>
  Two successive reads with no reset in between do not decrease on ESP32 (a
  tick in between) and on the polling build, as long as the 64-bit total does
  not itself overflow.
\<close>

lemma esp32_reads_monotone:
  assumes "initialized s" and "unat (time_fct_micros s) < 2 ^ 64 - 1"
  shows "fst (getMicroseconds ESP32 now s) \<le> fst (getMicroseconds ESP32 now' (timerISR s))"
proof -
  have "time_fct_micros s \<le> time_fct_micros s + 1"
    using assms(2) by (simp add: word_le_nat_alt unat_word_ariths)
  with assms(1) show ?thesis by (simp add: getMicroseconds_def timerISR_def)
qed

lemma unat_times_1000:
  fixes w :: u64
  assumes "unat w < 2 ^ 52"
  shows "unat (w * 1000) = unat w * 1000"
proof -
  have "unat w * unat (1000 :: u64) < 2 ^ LENGTH(64)" using assms by simp
  then have "unat (w * 1000) = unat w * unat (1000 :: u64)"
    by (simp only: unat_mult_lem)
  then show ?thesis by simp
qed

lemma unat_plus_delta:
  fixes w :: u64 and d :: u32
  assumes "unat w < 2 ^ 63"
  shows "unat (w + ucast d) = unat w + unat d"
proof -
  have d: "unat d < 2 ^ 32" using unsigned_less [of d, where ?'a = nat] by simp
  then have "unat d < 2 ^ 64" by simp
  then have u: "unat (ucast d :: u64) = unat d"
    by (simp add: unsigned_ucast_eq take_bit_nat_eq_self)
  have "unat w + unat (ucast d :: u64) < 2 ^ LENGTH(64)" using assms d by (simp add: u)
  then have "unat (w + ucast d) = unat w + unat (ucast d :: u64)"
    by (simp only: unat_add_lem)
  then show ?thesis by (simp only: u)
qed

lemma generic_reads_monotone:
  assumes "initialized s" and "unat (total_millis s) < 2 ^ 50"
  shows "fst (getMicroseconds Generic now s)
           \<le> fst (getMicroseconds Generic now' (snd (getMicroseconds Generic now s)))"
proof -
  define d1 :: u32 where "d1 = now - last_millis s"
  define d2 :: u32 where "d2 = now' - now"
  define t0 where "t0 = total_millis s"
  have r1: "getMicroseconds Generic now s =
             ((t0 + ucast d1) * 1000, s\<lparr>total_millis := t0 + ucast d1, last_millis := now\<rparr>)"
    unfolding d1_def t0_def using assms(1)
    by (simp add: getMicroseconds_def updateSoftwareTimer_def Let_def delta_word)
  have r2: "fst (getMicroseconds Generic now' (snd (getMicroseconds Generic now s)))
              = (t0 + ucast d1 + ucast d2) * 1000"
    unfolding r1 d2_def using assms(1)
    by (simp add: getMicroseconds_def updateSoftwareTimer_def Let_def delta_word)
  have b1: "unat d1 < 2 ^ 32" and b2: "unat d2 < 2 ^ 32"
    using unsigned_less [of d1, where ?'a = nat] unsigned_less [of d2, where ?'a = nat]
    by simp_all
  have t0: "unat t0 < 2 ^ 50" using assms(2) by (simp add: t0_def)
  then have a1: "unat (t0 + ucast d1) = unat t0 + unat d1"
    by (intro unat_plus_delta) simp
  with t0 b1 have a2: "unat (t0 + ucast d1 + ucast d2) = unat t0 + unat d1 + unat d2"
    by (subst unat_plus_delta) simp_all
  have m1: "unat ((t0 + ucast d1) * 1000) = (unat t0 + unat d1) * 1000"
    using t0 b1 by (subst unat_times_1000) (simp_all only: a1, simp_all)
  have m2: "unat ((t0 + ucast d1 + ucast d2) * 1000) = (unat t0 + unat d1 + unat d2) * 1000"
    using t0 b1 b2 by (subst unat_times_1000) (simp_all only: a2, simp_all)
  show ?thesis
    unfolding r2 unfolding r1 fst_conv word_le_nat_alt m1 m2 by simp
qed

text \<open>
  On ESP8266 a read that sees the narrow counter below \<open>last_micros\<close> is followed
  by a smaller one, unless the overflow interrupt runs between the two.
\<close>

lemma esp8266_reads_drop_after_wrap:
  assumes "initialized s" and "a < last_micros s" and "a \<le> b"
    and "unat (overflow_counter s) < 2 ^ 32 - 1"
  shows "fst (getMicroseconds ESP8266 b (snd (getMicroseconds ESP8266 a s)))
           < fst (getMicroseconds ESP8266 a s)"
proof -
  let ?c = "overflow_counter s"
  have c1: "unat (?c + 1) = unat ?c + 1"
    using assms(4) by (simp add: unat_word_ariths)
  have t1: "unat (fst (getMicroseconds ESP8266 a s)) = (unat ?c + 1) * 2 ^ 32 + unat a"
    using esp8266_read_value(1) [OF assms(1), of a] assms(2) by (simp add: c1)
  let ?s' = "snd (getMicroseconds ESP8266 a s)"
  have s': "initialized ?s'" "last_micros ?s' = a" "overflow_counter ?s' = ?c"
    using assms(1) by (simp_all add: esp8266_read_value(2))
  have nb: "\<not> b < a" using assms(3) by simp
  have t2: "unat (fst (getMicroseconds ESP8266 b ?s')) = unat ?c * 2 ^ 32 + unat b"
    using esp8266_read_value(1) [OF s'(1), of b] nb by (simp add: s'(2,3))
  have "unat b < 2 ^ 32" using unsigned_less [of b, where ?'a = nat] by simp
  then show ?thesis
    unfolding word_less_nat_alt t1 t2 by simp
qed

text \<open>
  C2 states that on every build two successive reads with no \<open>reset()\<close> in
  between never decrease, also when an ESP8266 read sees the narrow counter
  wrapped before the overflow interrupt has run. On the ESP8266 build they do
  decrease. \<open>updateTime\<close> adds 1 to its local \<open>high_part\<close> for the read that sees
  \<open>micros()\<close> below \<open>last_micros\<close> and for that read only. With the clock begun at
  \<open>micros() = 0xFFFFFFF0\<close>: when the overflow interrupt has run at the wrap, the
  reads at \<open>micros() = 5\<close> and \<open>6\<close> return \<open>2 * 2^32 + 5\<close> and then \<open>2^32 + 6\<close>; when
  it has not run yet, they return \<open>2^32 + 5\<close> and then \<open>6\<close>.
\<close>

theorem esp8266_reads_decrease:
  "fst (run ESP8266 [Begin 0xFFFFFFF0, Interrupt, Read 0x00000005, Read 0x00000006] initial_clock)
     = [8589934597, 4294967302] \<and>
   \<not> (8589934597 :: u64) \<le> 4294967302 \<and>
   fst (run ESP8266 [Begin 0xFFFFFFF0, Read 0x00000005, Read 0x00000006] initial_clock)
     = [4294967301, 6] \<and>
   \<not> (4294967301 :: u64) \<le> 6"
  by (simp add: run_defs)



end
